theory Spec2Isabelle
  imports Complex_Main "HOL-Library.Multiset"
begin

section \<open>Data model (schema-semantic.ts)\<close>

text \<open>
  The semantic generator reads a \<open>SemanticSvgSpec\<close>: a canvas size and a list of layers,
  each with an identifier, a shape, a position intent and a style. A TypeScript
  \<open>number\<close> is modelled as a \<open>real\<close>: the arithmetic of the generator is read as exact
  arithmetic, and IEEE-754 rounding, \<open>NaN\<close> and the infinities are outside the model.
  The model and the generator agree where the double arithmetic is exact, and on which
  expression is computed; an identity between results that holds only without rounding
  is a fact of the model and is not stated of the generator.
  An optional field (\<open>f?: T\<close>) is a \<open>T option\<close>, with \<open>None\<close> for an absent field.
\<close>

record ShapeStyle =
  fill :: "string option"
  stroke :: "string option"
  strokeWidth :: "real option"
  opacity :: "real option"

datatype PositionType = Absolute | Relative | Centered

datatype Alignment =
    tip_touches_left | tip_touches_right
  | tip_touches_top | tip_touches_bottom
  | edge_touches_left | edge_touches_right
  | edge_touches_top | edge_touches_bottom
  | center_aligned | adjacent_left | adjacent_right

text \<open>
  The fields \<open>x\<close> and \<open>y\<close> of a Position are read only when the type is \<open>absolute\<close>,
  where the source asserts their presence (\<open>position.x!\<close>); the record carries them as
  plain numbers under the names \<open>pos_x\<close> and \<open>pos_y\<close>. The field \<open>type\<close> is \<open>ptype\<close>.
\<close>

record Position =
  ptype :: PositionType
  pos_x :: real
  pos_y :: real
  relativeTo :: "string option"
  alignment :: "Alignment option"
  offset :: "real option"

datatype TriangleType = equilateral | isosceles | right_angled

datatype Orientation = pointing_up | pointing_down | pointing_left | pointing_right

text \<open>
  The tagged union \<open>ShapeDefinition\<close>, one constructor per \<open>shapeType\<close>:
  \<open>Triangle triangleType orientation size\<close>, \<open>Rectangle width height rounded\<close>,
  \<open>Circle radius\<close>, \<open>Ellipse radiusX radiusY\<close>, \<open>Line length angle\<close>, \<open>Diamond size\<close>.
\<close>

datatype ShapeDefinition =
    Triangle TriangleType Orientation real
  | Rectangle real real "real option"
  | Circle real
  | Ellipse real real
  | Line real real
  | Diamond real

record SemanticLayer =
  layer_id :: string
  shape :: ShapeDefinition
  position :: Position
  style :: ShapeStyle
  description :: "string option"

record CanvasSize =
  width :: real
  height :: real

record SemanticSvgSpec =
  spec_name :: string
  spec_description :: string
  canvasSize :: CanvasSize
  layers :: "SemanticLayer list"

section \<open>Resolved placements (generator-semantic.ts)\<close>

record Bounds =
  b_left :: real
  b_right :: real
  b_top :: real
  b_bottom :: real

record CalculatedShape =
  shape_id :: string
  centerX :: real
  centerY :: real
  bounds :: Bounds

text \<open>
  The module-level \<open>calculatedShapes\<close> is a \<open>Map\<close> from identifiers to placements. The
  functions that read or write it take it as an argument and return it updated.
\<close>

type_synonym shapes = "string \<rightharpoonup> CalculatedShape"

text \<open>
  What the generator can throw: \<open>Error msg\<close> is \<open>new Error(msg)\<close>; \<open>RangeError\<close> is the
  engine's error when the recursion of \<open>processLayer\<close> exhausts the call stack.
\<close>

datatype error = Error string | RangeError

text \<open>
  A template literal prints a number through JavaScript's number-to-string conversion,
  which the model takes as a parameter \<open>fmt\<close> of every function that builds markup.
\<close>

type_synonym numfmt = "real \<Rightarrow> string"

definition dq :: string where
  "dq = [CHR 0x22]"

definition nl :: string where
  "nl = [CHR 0x0A]"

fun join :: "string \<Rightarrow> string list \<Rightarrow> string" where
  "join sep [] = []"
| "join sep [s] = s"
| "join sep (s # t # ss) = s @ sep @ join sep (t # ss)"

subsection \<open>Geometry: triangle vertices\<close>

text \<open>
  \<open>calculateTriangle\<close> returns the \<open>points\<close> attribute of a polygon. Any shape that is
  not an equilateral triangle takes the fallback after the \<open>if\<close>.
\<close>

fun calculateTriangle :: "numfmt \<Rightarrow> ShapeDefinition \<Rightarrow> real \<Rightarrow> real \<Rightarrow> string" where
  "calculateTriangle fmt (Triangle equilateral orientation sz) cx cy =
     (let h = (sz * sqrt 3) / 2 in
      case orientation of
        pointing_right \<Rightarrow>
          fmt (cx - sz / 2) @ '','' @ fmt (cy - h / 2) @ '' '' @
          fmt (cx - sz / 2) @ '','' @ fmt (cy + h / 2) @ '' '' @
          fmt (cx + sz / 2) @ '','' @ fmt cy
      | pointing_left \<Rightarrow>
          fmt (cx + sz / 2) @ '','' @ fmt (cy - h / 2) @ '' '' @
          fmt (cx + sz / 2) @ '','' @ fmt (cy + h / 2) @ '' '' @
          fmt (cx - sz / 2) @ '','' @ fmt cy
      | pointing_up \<Rightarrow>
          fmt cx @ '','' @ fmt (cy - h / 2) @ '' '' @
          fmt (cx - sz / 2) @ '','' @ fmt (cy + h / 2) @ '' '' @
          fmt (cx + sz / 2) @ '','' @ fmt (cy + h / 2)
      | pointing_down \<Rightarrow>
          fmt cx @ '','' @ fmt (cy + h / 2) @ '' '' @
          fmt (cx - sz / 2) @ '','' @ fmt (cy - h / 2) @ '' '' @
          fmt (cx + sz / 2) @ '','' @ fmt (cy - h / 2))"
| "calculateTriangle fmt other cx cy =
     fmt cx @ '','' @ fmt (cy - 50) @ '' '' @
     fmt (cx - 50) @ '','' @ fmt (cy + 50) @ '' '' @
     fmt (cx + 50) @ '','' @ fmt (cy + 50)"

text \<open>
  The \<open>points\<close> syntax of a vertex list: \<open>x,y\<close> pairs separated by one space. It is the
  reading of a \<open>points\<close> string as a list of vertices, used to state what
  \<open>calculateTriangle\<close> returns.
\<close>

definition pointsAttr :: "numfmt \<Rightarrow> (real \<times> real) list \<Rightarrow> string" where
  "pointsAttr fmt ps = join '' '' (map (\<lambda>(px, py). fmt px @ '','' @ fmt py) ps)"

subsection \<open>Position Resolver\<close>

text \<open>
  The guard \<open>position.type === 'relative' && position.relativeTo\<close>, tested by
  \<open>calculatePosition\<close> and by \<open>processLayer\<close>: it holds when the type is relative and
  \<open>relativeTo\<close> is a non-empty string, and then \<open>position.relativeTo\<close> is the referent's
  identifier.
\<close>

definition referentOf :: "Position \<Rightarrow> string option" where
  "referentOf p =
     (if ptype p = Relative then
        (case relativeTo p of
           None \<Rightarrow> None
         | Some r \<Rightarrow> if r = [] then None else Some r)
      else None)"

text \<open>\<open>position.offset || 0\<close>: an absent offset (and the offset 0) counts as 0.\<close>

definition offsetOrZero :: "real option \<Rightarrow> real" where
  "offsetOrZero v = (case v of None \<Rightarrow> 0 | Some d \<Rightarrow> if d = 0 then 0 else d)"

definition notFound :: "string \<Rightarrow> error" where
  "notFound r = Error (''Reference shape '' @ dq @ r @ dq @ '' not found'')"

definition calculatePosition ::
  "SemanticLayer \<Rightarrow> real \<Rightarrow> real \<Rightarrow> shapes \<Rightarrow> error + (real \<times> real)" where
  "calculatePosition layer canvasWidth canvasHeight calculatedShapes =
     (let p = position layer in
      if ptype p = Absolute then Inr (pos_x p, pos_y p)
      else if ptype p = Centered then Inr (canvasWidth / 2, canvasHeight / 2)
      else
        (case referentOf p of
           Some r \<Rightarrow>
             (case calculatedShapes r of
                None \<Rightarrow> Inl (notFound r)
              | Some reference \<Rightarrow>
                  (let off = offsetOrZero (offset p) in
                   case alignment p of
                     Some tip_touches_left \<Rightarrow>
                       Inr (b_left (bounds reference) + off, centerY reference)
                   | Some tip_touches_right \<Rightarrow>
                       Inr (b_right (bounds reference) + off, centerY reference)
                   | Some tip_touches_top \<Rightarrow>
                       Inr (centerX reference, b_top (bounds reference) + off)
                   | Some tip_touches_bottom \<Rightarrow>
                       Inr (centerX reference, b_bottom (bounds reference) + off)
                   | Some center_aligned \<Rightarrow>
                       Inr (centerX reference, centerY reference)
                   | Some adjacent_left \<Rightarrow>
                       Inr (b_left (bounds reference) - off, centerY reference)
                   | Some adjacent_right \<Rightarrow>
                       Inr (b_right (bounds reference) + off, centerY reference)
                   | _ \<Rightarrow> Inr (centerX reference, centerY reference)))
         | None \<Rightarrow> Inr (canvasWidth / 2, canvasHeight / 2)))"

subsection \<open>Geometry: bounding boxes\<close>

text \<open>
  \<open>calculateBounds\<close> switches on the shape kind. The two orientations it names for a
  triangle give the same box; the other two take the default after them. Ellipse and
  line have no case of their own and take the \<open>default\<close> box.
\<close>

fun calculateBounds :: "ShapeDefinition \<Rightarrow> real \<Rightarrow> real \<Rightarrow> Bounds" where
  "calculateBounds (Circle radius) cx cy =
     \<lparr>b_left = cx - radius, b_right = cx + radius,
      b_top = cy - radius, b_bottom = cy + radius\<rparr>"
| "calculateBounds (Rectangle w h rounded) cx cy =
     \<lparr>b_left = cx - w / 2, b_right = cx + w / 2,
      b_top = cy - h / 2, b_bottom = cy + h / 2\<rparr>"
| "calculateBounds (Triangle triangleType orientation sz) cx cy =
     (let ht = (sz * sqrt 3) / 2 in
      if orientation = pointing_right then
        \<lparr>b_left = cx - sz / 2, b_right = cx + sz / 2,
         b_top = cy - ht / 2, b_bottom = cy + ht / 2\<rparr>
      else if orientation = pointing_left then
        \<lparr>b_left = cx - sz / 2, b_right = cx + sz / 2,
         b_top = cy - ht / 2, b_bottom = cy + ht / 2\<rparr>
      else
        \<lparr>b_left = cx - sz / 2, b_right = cx + sz / 2,
         b_top = cy - sz / 2, b_bottom = cy + sz / 2\<rparr>)"
| "calculateBounds (Diamond sz) cx cy =
     (let halfSize = sz / 2 in
      \<lparr>b_left = cx - halfSize, b_right = cx + halfSize,
       b_top = cy - halfSize, b_bottom = cy + halfSize\<rparr>)"
| "calculateBounds other cx cy =
     \<lparr>b_left = cx - 50, b_right = cx + 50,
      b_top = cy - 50, b_bottom = cy + 50\<rparr>"

subsection \<open>Markup of one layer\<close>

text \<open>
  \<open>layerToSvg\<close> builds the element of one layer. Its \<open>default\<close> case throws on a shape
  kind outside the six of \<open>ShapeDefinition\<close>; the datatype has no such value, so the
  function returns a string. A description is printed when it is a non-empty string,
  \<open>rounded\<close> when it is a number other than 0.
\<close>

definition styleAttrs :: "numfmt \<Rightarrow> SemanticLayer \<Rightarrow> string list" where
  "styleAttrs fmt layer =
     [''id='' @ dq @ layer_id layer @ dq]
     @ (case fill (style layer) of None \<Rightarrow> [] | Some v \<Rightarrow> [''fill='' @ dq @ v @ dq])
     @ (case stroke (style layer) of None \<Rightarrow> [] | Some v \<Rightarrow> [''stroke='' @ dq @ v @ dq])
     @ (case strokeWidth (style layer) of
          None \<Rightarrow> [] | Some v \<Rightarrow> [''stroke-width='' @ dq @ fmt v @ dq])
     @ (case opacity (style layer) of
          None \<Rightarrow> [] | Some v \<Rightarrow> [''opacity='' @ dq @ fmt v @ dq])"

definition commentOf :: "SemanticLayer \<Rightarrow> string" where
  "commentOf layer =
     (case description layer of
        None \<Rightarrow> []
      | Some d \<Rightarrow> if d = [] then [] else ''  <!-- '' @ d @ '' -->'' @ nl)"

definition layerToSvg :: "numfmt \<Rightarrow> SemanticLayer \<Rightarrow> real \<Rightarrow> real \<Rightarrow> string" where
  "layerToSvg fmt layer cx cy =
     (let attrs = styleAttrs fmt layer; comment = commentOf layer in
      case shape layer of
        Triangle triangleType orientation sz \<Rightarrow>
          (let points = calculateTriangle fmt (shape layer) cx cy in
           comment @ ''  <polygon '' @ join '' '' attrs
             @ '' points='' @ dq @ points @ dq @ '' />'')
      | Circle radius \<Rightarrow>
          comment @ ''  <circle '' @ join '' '' attrs
            @ '' cx='' @ dq @ fmt cx @ dq @ '' cy='' @ dq @ fmt cy @ dq
            @ '' r='' @ dq @ fmt radius @ dq @ '' />''
      | Rectangle w h rounded \<Rightarrow>
          (let x = cx - w / 2; y = cy - h / 2;
               attrs' = attrs
                 @ [''x='' @ dq @ fmt x @ dq, ''y='' @ dq @ fmt y @ dq,
                    ''width='' @ dq @ fmt w @ dq, ''height='' @ dq @ fmt h @ dq]
                 @ (case rounded of
                      None \<Rightarrow> []
                    | Some v \<Rightarrow> if v = 0 then [] else [''rx='' @ dq @ fmt v @ dq])
           in comment @ ''  <rect '' @ join '' '' attrs' @ '' />'')
      | Ellipse radiusX radiusY \<Rightarrow>
          comment @ ''  <ellipse '' @ join '' '' attrs
            @ '' cx='' @ dq @ fmt cx @ dq @ '' cy='' @ dq @ fmt cy @ dq
            @ '' rx='' @ dq @ fmt radiusX @ dq @ '' ry='' @ dq @ fmt radiusY @ dq @ '' />''
      | Line len ang \<Rightarrow>
          (let angle = (ang * pi) / 180; halfLength = len / 2;
               x1 = cx - cos angle * halfLength; y1 = cy - sin angle * halfLength;
               x2 = cx + cos angle * halfLength; y2 = cy + sin angle * halfLength
           in comment @ ''  <line '' @ join '' '' attrs
                @ '' x1='' @ dq @ fmt x1 @ dq @ '' y1='' @ dq @ fmt y1 @ dq
                @ '' x2='' @ dq @ fmt x2 @ dq @ '' y2='' @ dq @ fmt y2 @ dq @ '' />'')
      | Diamond sz \<Rightarrow>
          (let halfSize = sz / 2;
               points = fmt cx @ '','' @ fmt (cy - halfSize) @ '' ''
                 @ fmt (cx + halfSize) @ '','' @ fmt cy @ '' ''
                 @ fmt cx @ '','' @ fmt (cy + halfSize) @ '' ''
                 @ fmt (cx - halfSize) @ '','' @ fmt cy
           in comment @ ''  <polygon '' @ join '' '' attrs
                @ '' points='' @ dq @ points @ dq @ '' />''))"

subsection \<open>Dependency Orderer\<close>

text \<open>
  \<open>new Map(layers.map(l => [l.id, l]))\<close>: the entries are inserted in declaration
  order, so a later layer replaces an earlier one with the same identifier.
\<close>

definition layerMap :: "SemanticLayer list \<Rightarrow> (string \<rightharpoonup> SemanticLayer)" where
  "layerMap ls = foldl (\<lambda>m l. m(layer_id l \<mapsto> l)) Map.empty ls"

text \<open>
  \<open>processLayer\<close> is a closure over \<open>sorted\<close>, \<open>processed\<close> and \<open>layerMap\<close>; the model
  passes the pair \<open>(sorted, processed)\<close> through and returns it updated. The recursion
  has no bound in the source: on a reference cycle it goes on until the engine's call
  stack is exhausted and a \<open>RangeError\<close> is thrown. The first argument is the number of
  nested calls the stack still has room for; with no room left the call throws.
\<close>

fun processLayer ::
  "nat \<Rightarrow> (string \<rightharpoonup> SemanticLayer) \<Rightarrow> SemanticLayer
     \<Rightarrow> SemanticLayer list \<times> string set \<Rightarrow> error + (SemanticLayer list \<times> string set)" where
  "processLayer 0 lm layer (sortedLayers, processed) = Inl RangeError"
| "processLayer (Suc depth) lm layer (sortedLayers, processed) =
     (if layer_id layer \<in> processed then Inr (sortedLayers, processed)
      else
        (case (case referentOf (position layer) of
                 Some r \<Rightarrow>
                   (case lm r of
                      Some ref \<Rightarrow>
                        if layer_id ref \<notin> processed
                        then processLayer depth lm ref (sortedLayers, processed)
                        else Inr (sortedLayers, processed)
                    | None \<Rightarrow> Inr (sortedLayers, processed))
               | None \<Rightarrow> Inr (sortedLayers, processed)) of
           Inl e \<Rightarrow> Inl e
         | Inr (sortedLayers', processed') \<Rightarrow>
             Inr (sortedLayers' @ [layer], insert (layer_id layer) processed')))"

text \<open>The loop \<open>for (const layer of layers) processLayer(layer)\<close>.\<close>

fun processAll ::
  "nat \<Rightarrow> (string \<rightharpoonup> SemanticLayer) \<Rightarrow> SemanticLayer list
     \<Rightarrow> SemanticLayer list \<times> string set \<Rightarrow> error + (SemanticLayer list \<times> string set)" where
  "processAll depth lm [] st = Inr st"
| "processAll depth lm (layer # rest) st =
     (case processLayer depth lm layer st of
        Inl e \<Rightarrow> Inl e
      | Inr st' \<Rightarrow> processAll depth lm rest st')"

definition sortLayersByDependencies ::
  "nat \<Rightarrow> SemanticLayer list \<Rightarrow> error + SemanticLayer list" where
  "sortLayersByDependencies depth ls =
     (case processAll depth (layerMap ls) ls ([], {}) of
        Inl e \<Rightarrow> Inl e
      | Inr (sortedLayers, processed) \<Rightarrow> Inr sortedLayers)"

subsection \<open>Layout Engine\<close>

text \<open>
  The loop of \<open>generateSemanticSvg\<close> over the sorted layers: resolve the center, compute
  the bounds, record the placement, append the element. A throw of \<open>calculatePosition\<close>
  leaves the loop with the placements recorded so far still in \<open>calculatedShapes\<close>.
\<close>

fun layoutLayers ::
  "numfmt \<Rightarrow> real \<Rightarrow> real \<Rightarrow> SemanticLayer list \<Rightarrow> string list \<times> shapes
     \<Rightarrow> (error + string list) \<times> shapes" where
  "layoutLayers fmt w h [] (svg, calculatedShapes) = (Inr svg, calculatedShapes)"
| "layoutLayers fmt w h (layer # rest) (svg, calculatedShapes) =
     (case calculatePosition layer w h calculatedShapes of
        Inl e \<Rightarrow> (Inl e, calculatedShapes)
      | Inr (cx, cy) \<Rightarrow>
          (let bnds = calculateBounds (shape layer) cx cy;
               calculatedShapes' = calculatedShapes(layer_id layer \<mapsto>
                 \<lparr>shape_id = layer_id layer, centerX = cx, centerY = cy, bounds = bnds\<rparr>)
           in layoutLayers fmt w h rest
                (svg @ [layerToSvg fmt layer cx cy], calculatedShapes')))"

definition svgHeader :: "numfmt \<Rightarrow> SemanticSvgSpec \<Rightarrow> string list" where
  "svgHeader fmt spec =
     (let w = width (canvasSize spec); h = height (canvasSize spec) in
      [''<?xml version='' @ dq @ ''1.0'' @ dq @ '' encoding='' @ dq @ ''UTF-8'' @ dq @ ''?>'',
       ''<svg xmlns='' @ dq @ ''http://www.w3.org/2000/svg'' @ dq
         @ '' viewBox='' @ dq @ ''0 0 '' @ fmt w @ '' '' @ fmt h @ dq
         @ '' width='' @ dq @ fmt w @ dq @ '' height='' @ dq @ fmt h @ dq @ ''>'',
       ''  <!-- '' @ spec_description spec @ '' -->'',
       []])"

text \<open>
  \<open>generateSemanticSvg\<close> takes the state of the module-level map at the call and returns
  the result of the call (the markup, or the error thrown) with the state of the map
  after it. Its first statement clears the map.
\<close>

definition generateSemanticSvg ::
  "nat \<Rightarrow> numfmt \<Rightarrow> SemanticSvgSpec \<Rightarrow> shapes \<Rightarrow> (error + string) \<times> shapes" where
  "generateSemanticSvg depth fmt spec calculatedShapes =
     (let cleared = Map.empty in
      case sortLayersByDependencies depth (layers spec) of
        Inl e \<Rightarrow> (Inl e, cleared)
      | Inr sortedLayers \<Rightarrow>
          (case layoutLayers fmt (width (canvasSize spec)) (height (canvasSize spec))
                  sortedLayers (svgHeader fmt spec, cleared) of
             (Inl e, calculatedShapes') \<Rightarrow> (Inl e, calculatedShapes')
           | (Inr svg, calculatedShapes') \<Rightarrow>
               (Inr (join nl (svg @ [''</svg>''])), calculatedShapes')))"

section \<open>The reference graph of a specification\<close>

text \<open>
  Layer \<open>l\<close> is positioned relative to layer \<open>r\<close> when the referent identifier of \<open>l\<close> is
  the identifier of \<open>r\<close>; \<open>depends ls\<close> is that relation on the layers of a specification.
\<close>

definition depends :: "SemanticLayer list \<Rightarrow> (SemanticLayer \<times> SemanticLayer) set" where
  "depends ls =
     {(l, r). l \<in> set ls \<and> r \<in> set ls \<and> referentOf (position l) = Some (layer_id r)}"

text \<open>\<open>r\<close> appears strictly before \<open>l\<close> in a list.\<close>

definition appearsBefore :: "'a list \<Rightarrow> 'a \<Rightarrow> 'a \<Rightarrow> bool" where
  "appearsBefore xs r l = (\<exists>pre post. xs = pre @ l # post \<and> r \<in> set pre)"


section \<open>The ISA ball-valve specification\<close>

definition valveStyle :: ShapeStyle where
  "valveStyle =
     \<lparr>fill = Some ''none'', stroke = Some ''#000'', strokeWidth = Some 2, opacity = None\<rparr>"

definition relativePosition :: "string \<Rightarrow> Alignment \<Rightarrow> Position" where
  "relativePosition r a =
     \<lparr>ptype = Relative, pos_x = 0, pos_y = 0, relativeTo = Some r,
      alignment = Some a, offset = None\<rparr>"

definition centeredPosition :: Position where
  "centeredPosition =
     \<lparr>ptype = Centered, pos_x = 0, pos_y = 0, relativeTo = None,
      alignment = None, offset = None\<rparr>"

definition valveCircle :: SemanticLayer where
  "valveCircle =
     \<lparr>layer_id = ''center_circle'', shape = Circle 30, position = centeredPosition,
      style = valveStyle, description = None\<rparr>"

definition valveLeft :: SemanticLayer where
  "valveLeft =
     \<lparr>layer_id = ''left'', shape = Triangle equilateral pointing_right 100,
      position = relativePosition ''center_circle'' tip_touches_left,
      style = valveStyle, description = None\<rparr>"

definition valveRight :: SemanticLayer where
  "valveRight =
     \<lparr>layer_id = ''right'', shape = Triangle equilateral pointing_left 100,
      position = relativePosition ''center_circle'' tip_touches_right,
      style = valveStyle, description = None\<rparr>"

definition valveSpec :: "SemanticLayer list \<Rightarrow> SemanticSvgSpec" where
  "valveSpec ls =
     \<lparr>spec_name = ''ball_valve_isa'', spec_description = ''ISA standard ball valve symbol'',
      canvasSize = \<lparr>width = 400, height = 400\<rparr>, layers = ls\<rparr>"

text \<open>The placement of the circle of radius 30 at the center of the 400 by 400 canvas.\<close>

definition circlePlacement :: CalculatedShape where
  "circlePlacement =
     \<lparr>shape_id = ''center_circle'', centerX = 200, centerY = 200,
      bounds = \<lparr>b_left = 170, b_right = 230, b_top = 170, b_bottom = 230\<rparr>\<rparr>"

text \<open>Two layers that name each other, and a layer that names an identifier no layer has.\<close>

definition cycleA :: SemanticLayer where
  "cycleA = valveLeft\<lparr>position := relativePosition ''right'' adjacent_left\<rparr>"

definition cycleB :: SemanticLayer where
  "cycleB = valveRight\<lparr>position := relativePosition ''left'' adjacent_right\<rparr>"


section \<open>Invariants of the orderer\<close>

text \<open>
  What holds of \<open>(sorted, processed)\<close> between two calls of \<open>processLayer\<close>: \<open>processed\<close>
  holds the identifiers of \<open>sorted\<close>, \<open>sorted\<close> has no layer twice and only layers of the
  specification, and every layer in \<open>sorted\<close> comes after the layer it is relative to.
\<close>

definition sortInv :: "SemanticLayer list \<Rightarrow> SemanticLayer list \<times> string set \<Rightarrow> bool" where
  "sortInv ls st =
     (snd st = layer_id ` set (fst st) \<and> distinct (fst st) \<and> set (fst st) \<subseteq> set ls
      \<and> (\<forall>l r. (l, r) \<in> depends ls \<and> l \<in> set (fst st) \<longrightarrow> appearsBefore (fst st) r l))"

text \<open>The layers from which the references lead into a cycle.\<close>

definition leadsToCycle :: "SemanticLayer list \<Rightarrow> SemanticLayer set" where
  "leadsToCycle ls = {l. \<exists>c. (l, c) \<in> (depends ls)\<^sup>* \<and> (c, c) \<in> (depends ls)\<^sup>+}"

section \<open>Position Resolver: the alignment table\<close>

text \<open>
  Claim C2. For a relative position whose referent placement is in the mapping,
  \<open>calculatePosition\<close> returns the center of the alignment table:
  \<open>tip_touches_left\<close> gives (left + offset, centerY), \<open>tip_touches_right\<close> gives
  (right + offset, centerY), \<open>tip_touches_top\<close> gives (centerX, top + offset),
  \<open>tip_touches_bottom\<close> gives (centerX, bottom + offset), \<open>center_aligned\<close> gives
  (centerX, centerY), \<open>adjacent_left\<close> gives (left - offset, centerY) and
  \<open>adjacent_right\<close> gives (right + offset, centerY); the offset is 0 when absent, and
  any other or absent alignment resolves like \<open>center_aligned\<close>.
\<close>

theorem calculatePosition_alignment_table:
  assumes "ptype (position layer) = Relative"
    and "relativeTo (position layer) = Some r" and "r \<noteq> []"
    and "calculatedShapes r = Some ref"
    and "off = (case offset (position layer) of None \<Rightarrow> 0 | Some d \<Rightarrow> d)"
  shows "(alignment (position layer) = Some tip_touches_left \<longrightarrow>
            calculatePosition layer w h calculatedShapes
              = Inr (b_left (bounds ref) + off, centerY ref))
       \<and> (alignment (position layer) = Some tip_touches_right \<longrightarrow>
            calculatePosition layer w h calculatedShapes
              = Inr (b_right (bounds ref) + off, centerY ref))
       \<and> (alignment (position layer) = Some tip_touches_top \<longrightarrow>
            calculatePosition layer w h calculatedShapes
              = Inr (centerX ref, b_top (bounds ref) + off))
       \<and> (alignment (position layer) = Some tip_touches_bottom \<longrightarrow>
            calculatePosition layer w h calculatedShapes
              = Inr (centerX ref, b_bottom (bounds ref) + off))
       \<and> (alignment (position layer) = Some center_aligned \<longrightarrow>
            calculatePosition layer w h calculatedShapes
              = Inr (centerX ref, centerY ref))
       \<and> (alignment (position layer) = Some adjacent_left \<longrightarrow>
            calculatePosition layer w h calculatedShapes
              = Inr (b_left (bounds ref) - off, centerY ref))
       \<and> (alignment (position layer) = Some adjacent_right \<longrightarrow>
            calculatePosition layer w h calculatedShapes
              = Inr (b_right (bounds ref) + off, centerY ref))
       \<and> (alignment (position layer) \<notin>
              Some ` {tip_touches_left, tip_touches_right, tip_touches_top,
                      tip_touches_bottom, center_aligned, adjacent_left, adjacent_right} \<longrightarrow>
            calculatePosition layer w h calculatedShapes
              = Inr (centerX ref, centerY ref))"
proof -
  have g: "referentOf (position layer) = Some r"
    using assms(1-3) by (simp add: referentOf_def)
  have o: "offsetOrZero (offset (position layer)) = off"
    using assms(5) by (simp add: offsetOrZero_def split: option.splits)
  show ?thesis
    using assms(1,4) g o
    by (cases "alignment (position layer)")
       (auto simp: calculatePosition_def Let_def split: Alignment.splits)
qed

theorem calculatePosition_alignment_table_witness:
  "calculatePosition valveLeft 400 400 [''center_circle'' \<mapsto> circlePlacement] = Inr (170, 200)
   \<and> calculatePosition
        (valveLeft\<lparr>position :=
           (relativePosition ''center_circle'' adjacent_left)\<lparr>offset := Some 5\<rparr>\<rparr>)
        400 400 [''center_circle'' \<mapsto> circlePlacement] = Inr (165, 200)"
proof -
  let ?cs = "[''center_circle'' \<mapsto> circlePlacement]"
  let ?adj = "valveLeft\<lparr>position :=
    (relativePosition ''center_circle'' adjacent_left)\<lparr>offset := Some 5\<rparr>\<rparr>"
  have a: "calculatePosition valveLeft 400 400 ?cs = Inr (170, 200)"
    using calculatePosition_alignment_table
      [of valveLeft "''center_circle''" ?cs circlePlacement 0 400 400]
    by (simp add: valveLeft_def relativePosition_def circlePlacement_def)
  have b: "calculatePosition ?adj 400 400 ?cs = Inr (165, 200)"
    using calculatePosition_alignment_table
      [of ?adj "''center_circle''" ?cs circlePlacement 5 400 400]
    by (simp add: valveLeft_def relativePosition_def circlePlacement_def)
  show ?thesis using a b by simp
qed

section \<open>Position Resolver: the edge-touch alignments\<close>

text \<open>
  The schema declares the four \<open>edge_touches\<close> alignments beside the \<open>tip_touches\<close> ones,
  and the prompt of the generator describes them as the shape's edge touching the
  referenced shape. The switch of \<open>calculatePosition\<close> has a case for each \<open>tip_touches\<close>
  alignment and none for an \<open>edge_touches\<close> one. Against the circle of the ball valve,
  \<open>edge_touches_left\<close> gives the center (200, 200) and \<open>tip_touches_left\<close> gives
  (170, 200).
\<close>

theorem edge_touches_differs_from_tip_touches:
  "calculatePosition
     (valveLeft\<lparr>position := relativePosition ''center_circle'' edge_touches_left\<rparr>)
     400 400 [''center_circle'' \<mapsto> circlePlacement]
   \<noteq> calculatePosition
     (valveLeft\<lparr>position := relativePosition ''center_circle'' tip_touches_left\<rparr>)
     400 400 [''center_circle'' \<mapsto> circlePlacement]"
  by (simp add: calculatePosition_def referentOf_def relativePosition_def valveLeft_def
      circlePlacement_def offsetOrZero_def)

text \<open>
  Claim C6 asks that a relative position with alignment \<open>edge_touches_D\<close> resolve to
  the same center as with \<open>tip_touches_D\<close>, for every referent placement, offset and
  direction D. The generator misses the four cases: for every referent placement and
  offset, an \<open>edge_touches\<close> alignment falls to the \<open>default\<close> of the switch and resolves,
  whatever its direction and offset, to the referent's center (centerX, centerY), as
  \<open>center_aligned\<close> does.
\<close>

theorem edge_touches_resolves_to_center:
  assumes "ptype (position layer) = Relative"
    and "relativeTo (position layer) = Some r" and "r \<noteq> []"
    and "calculatedShapes r = Some ref"
    and "alignment (position layer) \<in>
           {Some edge_touches_left, Some edge_touches_right,
            Some edge_touches_top, Some edge_touches_bottom}"
  shows "calculatePosition layer w h calculatedShapes = Inr (centerX ref, centerY ref)
       \<and> calculatePosition layer w h calculatedShapes
         = calculatePosition
             (layer\<lparr>position := (position layer)\<lparr>alignment := Some center_aligned\<rparr>\<rparr>)
             w h calculatedShapes"
proof -
  have g: "referentOf (position layer) = Some r"
    using assms(1-3) by (simp add: referentOf_def)
  show ?thesis
    using assms(1,4,5) g
    by (auto simp: calculatePosition_def Let_def referentOf_def)
qed

theorem edge_touches_resolves_to_center_witness:
  "calculatePosition
     (valveLeft\<lparr>position := relativePosition ''center_circle'' edge_touches_left\<rparr>)
     400 400 [''center_circle'' \<mapsto> circlePlacement] = Inr (200, 200)"
  using edge_touches_resolves_to_center
    [of "valveLeft\<lparr>position := relativePosition ''center_circle'' edge_touches_left\<rparr>"
        "''center_circle''" "[''center_circle'' \<mapsto> circlePlacement]" circlePlacement 400 400]
  by (simp add: valveLeft_def relativePosition_def circlePlacement_def)

section \<open>Position Resolver: a relative position without a referent\<close>

text \<open>
  Claim C10. A layer whose position has type relative and whose \<open>relativeTo\<close> is absent
  or the empty string resolves to the canvas center (canvasWidth / 2, canvasHeight / 2),
  with no error, for every canvas size and every placement mapping.
\<close>

theorem relative_without_referent_is_centered:
  assumes "ptype (position layer) = Relative"
    and "relativeTo (position layer) = None \<or> relativeTo (position layer) = Some []"
  shows "calculatePosition layer canvasWidth canvasHeight calculatedShapes
           = Inr (canvasWidth / 2, canvasHeight / 2)"
  using assms by (auto simp: calculatePosition_def referentOf_def Let_def)

theorem relative_without_referent_is_centered_witness:
  "calculatePosition
     (valveLeft\<lparr>position := (position valveLeft)\<lparr>relativeTo := Some []\<rparr>\<rparr>)
     400 300 [''center_circle'' \<mapsto> circlePlacement] = Inr (200, 150)
   \<and> calculatePosition
     (valveLeft\<lparr>position := (position valveLeft)\<lparr>relativeTo := None\<rparr>\<rparr>)
     400 300 Map.empty = Inr (200, 150)"
  using relative_without_referent_is_centered
    [of "valveLeft\<lparr>position := (position valveLeft)\<lparr>relativeTo := Some []\<rparr>\<rparr>"
        400 300 "[''center_circle'' \<mapsto> circlePlacement]"]
    relative_without_referent_is_centered
    [of "valveLeft\<lparr>position := (position valveLeft)\<lparr>relativeTo := None\<rparr>\<rparr>"
        400 300 Map.empty]
  by (simp add: valveLeft_def relativePosition_def)

section \<open>Geometry Kernel\<close>

text \<open>
  Claim C7. For an equilateral triangle of side \<open>s\<close> centered at (cx, cy), with
  h = s * sqrt 3 / 2, \<open>calculateTriangle\<close> returns the vertex lists
  pointing_right: (cx - s/2, cy - h/2), (cx - s/2, cy + h/2), (cx + s/2, cy);
  pointing_left: (cx + s/2, cy - h/2), (cx + s/2, cy + h/2), (cx - s/2, cy);
  pointing_up: (cx, cy - h/2), (cx - s/2, cy + h/2), (cx + s/2, cy + h/2);
  pointing_down: (cx, cy + h/2), (cx - s/2, cy - h/2), (cx + s/2, cy - h/2).
  For size 100, pointing right, centered at (0, 0) the vertices are
  (-50, -y), (-50, y), (50, 0) with y = 25 * sqrt 3, between 43.30 and 43.31.
\<close>

theorem calculateTriangle_vertices:
  "calculateTriangle fmt (Triangle equilateral pointing_right s) cx cy
     = pointsAttr fmt [(cx - s / 2, cy - (s * sqrt 3 / 2) / 2),
                       (cx - s / 2, cy + (s * sqrt 3 / 2) / 2),
                       (cx + s / 2, cy)]
   \<and> calculateTriangle fmt (Triangle equilateral pointing_left s) cx cy
     = pointsAttr fmt [(cx + s / 2, cy - (s * sqrt 3 / 2) / 2),
                       (cx + s / 2, cy + (s * sqrt 3 / 2) / 2),
                       (cx - s / 2, cy)]
   \<and> calculateTriangle fmt (Triangle equilateral pointing_up s) cx cy
     = pointsAttr fmt [(cx, cy - (s * sqrt 3 / 2) / 2),
                       (cx - s / 2, cy + (s * sqrt 3 / 2) / 2),
                       (cx + s / 2, cy + (s * sqrt 3 / 2) / 2)]
   \<and> calculateTriangle fmt (Triangle equilateral pointing_down s) cx cy
     = pointsAttr fmt [(cx, cy + (s * sqrt 3 / 2) / 2),
                       (cx - s / 2, cy - (s * sqrt 3 / 2) / 2),
                       (cx + s / 2, cy - (s * sqrt 3 / 2) / 2)]
   \<and> calculateTriangle fmt (Triangle equilateral pointing_right 100) 0 0
     = pointsAttr fmt [(- 50, - (25 * sqrt 3)), (- 50, 25 * sqrt 3), (50, 0)]
   \<and> 43.30 < 25 * sqrt 3 \<and> 25 * sqrt 3 < 43.31"
proof -
  have lo: "(1.732::real) < sqrt 3"
    by (rule real_less_rsqrt) (simp add: power2_eq_square)
  have hi: "sqrt 3 < (1.7324::real)"
    by (rule real_less_lsqrt) (simp_all add: power2_eq_square)
  have approx: "43.30 < 25 * sqrt 3 \<and> 25 * sqrt 3 < 43.31"
    using lo hi by simp
  show ?thesis
    using approx by (simp add: pointsAttr_def Let_def)
qed

section \<open>Dependency Orderer: the sorted list\<close>

subsection \<open>The identifier map\<close>

lemma layerMap_snoc: "layerMap (ls @ [l]) = (layerMap ls)(layer_id l \<mapsto> l)"
  by (simp add: layerMap_def)

lemma layerMap_SomeD: "layerMap ls i = Some l \<Longrightarrow> l \<in> set ls \<and> layer_id l = i"
proof (induction ls arbitrary: l rule: rev_induct)
  case Nil
  then show ?case by (simp add: layerMap_def)
next
  case (snoc x xs)
  then show ?case by (auto simp: layerMap_snoc split: if_splits)
qed

lemma layerMap_distinct:
  "distinct (map layer_id ls) \<Longrightarrow> l \<in> set ls \<Longrightarrow> layerMap ls (layer_id l) = Some l"
proof (induction ls rule: rev_induct)
  case Nil
  then show ?case by simp
next
  case (snoc x xs)
  show ?case
  proof (cases "l = x")
    case True
    then show ?thesis by (simp add: layerMap_snoc)
  next
    case False
    with snoc.prems have lin: "l \<in> set xs" and dx: "distinct (map layer_id xs)"
      and "layer_id x \<notin> layer_id ` set xs" by auto
    then have "layer_id x \<noteq> layer_id l" by (metis imageI)
    with snoc.IH[OF dx lin] show ?thesis by (simp add: layerMap_snoc)
  qed
qed

lemma same_id_same_layer:
  "distinct (map layer_id ls) \<Longrightarrow> a \<in> set ls \<Longrightarrow> b \<in> set ls
     \<Longrightarrow> layer_id a = layer_id b \<Longrightarrow> a = b"
  by (meson distinct_map inj_onD)

lemma depends_layerMap:
  assumes "distinct (map layer_id ls)" and "l \<in> set ls"
  shows "(l, r) \<in> depends ls
     \<longleftrightarrow> (\<exists>i. referentOf (position l) = Some i \<and> layerMap ls i = Some r)"
  using assms layerMap_distinct[OF assms(1)] layerMap_SomeD[of ls]
  by (auto simp: depends_def)

subsection \<open>One call of processLayer keeps the invariant\<close>

lemma depends_in_layers: "(l, r) \<in> depends ls \<Longrightarrow> l \<in> set ls \<and> r \<in> set ls"
  by (simp add: depends_def)

lemma reach_in_layers: "(l, r) \<in> (depends ls)\<^sup>+ \<Longrightarrow> l \<in> set ls \<and> r \<in> set ls"
  by (induction rule: trancl.induct) (auto dest: depends_in_layers)

lemma appearsBefore_append: "appearsBefore xs r l \<Longrightarrow> appearsBefore (xs @ ys) r l"
  unfolding appearsBefore_def by (metis append.assoc append_Cons)

lemma appearsBefore_last: "r \<in> set xs \<Longrightarrow> appearsBefore (xs @ [l]) r l"
  unfolding appearsBefore_def by blast

lemma sortInv_member:
  assumes "distinct (map layer_id ls)" and "sortInv ls st" and "r \<in> set ls"
    and "layer_id r \<in> snd st"
  shows "r \<in> set (fst st)"
proof -
  from assms(2,4) obtain x where x: "x \<in> set (fst st)" "layer_id x = layer_id r"
    by (auto simp: sortInv_def)
  with assms(2) have "x \<in> set ls" by (auto simp: sortInv_def)
  with assms(1,3) x have "x = r" by (auto dest: same_id_same_layer)
  with x show ?thesis by simp
qed

lemma sortInv_push:
  assumes "sortInv ls (s, p)" and "l \<in> set ls" and "layer_id l \<notin> p"
    and "\<And>r. (l, r) \<in> depends ls \<Longrightarrow> r \<in> set s"
  shows "sortInv ls (s @ [l], insert (layer_id l) p)"
proof -
  from assms(1,3) have notin: "l \<notin> set s" by (auto simp: sortInv_def)
  have ord: "appearsBefore (s @ [l]) r a"
    if "(a, r) \<in> depends ls" "a \<in> set (s @ [l])" for a r
  proof (cases "a \<in> set s")
    case True
    with assms(1) that have "appearsBefore s r a" by (auto simp: sortInv_def)
    then show ?thesis by (rule appearsBefore_append)
  next
    case False
    with that have "a = l" by simp
    with that assms(4) show ?thesis by (auto intro: appearsBefore_last)
  qed
  show ?thesis
    using assms(1,2) notin ord unfolding sortInv_def by auto
qed

lemma processLayer_inv:
  assumes d: "distinct (map layer_id ls)" and ac: "acyclic (depends ls)"
  shows "l \<in> set ls \<Longrightarrow> sortInv ls st \<Longrightarrow> processLayer n (layerMap ls) l st = Inr st'
     \<Longrightarrow> sortInv ls st' \<and> layer_id l \<in> snd st'
         \<and> (\<exists>ys. fst st' = fst st @ ys \<and> set ys \<subseteq> (depends ls)\<^sup>* `` {l})"
proof (induction n arbitrary: l st st')
  case 0
  then show ?case by (cases st) simp
next
  case (Suc n)
  obtain s p where st: "st = (s, p)" by (cases st)
  show ?case
  proof (cases "layer_id l \<in> p")
    case True
    with Suc.prems st show ?thesis by auto
  next
    case False
    define mid where "mid =
      (case referentOf (position l) of
         Some r \<Rightarrow>
           (case layerMap ls r of
              Some ref \<Rightarrow>
                if layer_id ref \<notin> p
                then processLayer n (layerMap ls) ref (s, p)
                else Inr (s, p)
            | None \<Rightarrow> Inr (s, p))
       | None \<Rightarrow> Inr (s, p))"
    from Suc.prems(3) st False obtain s1 p1 where
      mid: "mid = Inr (s1, p1)" and st': "st' = (s1 @ [l], insert (layer_id l) p1)"
      by (auto simp: mid_def split: sum.splits)
    have main: "sortInv ls (s1, p1) \<and> layer_id l \<notin> p1
        \<and> (\<forall>r. (l, r) \<in> depends ls \<longrightarrow> r \<in> set s1)
        \<and> (\<exists>ys. s1 = s @ ys \<and> set ys \<subseteq> (depends ls)\<^sup>* `` {l})"
    proof (cases "\<exists>i ref. referentOf (position l) = Some i \<and> layerMap ls i = Some ref
                    \<and> layer_id ref \<notin> p")
      case True
      then obtain i ref where i: "referentOf (position l) = Some i"
        and ref: "layerMap ls i = Some ref" and un: "layer_id ref \<notin> p" by blast
      from i ref have dep: "(l, ref) \<in> depends ls"
        using depends_layerMap[OF d Suc.prems(1)] by blast
      then have refin: "ref \<in> set ls" by (simp add: depends_in_layers)
      from mid i ref un have "processLayer n (layerMap ls) ref (s, p) = Inr (s1, p1)"
        by (simp add: mid_def)
      from Suc.IH[OF refin Suc.prems(2)[unfolded st] this]
      obtain ys where inv1: "sortInv ls (s1, p1)" and refp: "layer_id ref \<in> p1"
        and ys: "s1 = s @ ys" "set ys \<subseteq> (depends ls)\<^sup>* `` {ref}" by auto
      have lnot: "layer_id l \<notin> p1"
      proof
        assume "layer_id l \<in> p1"
        from sortInv_member[OF d inv1 Suc.prems(1)] this have "l \<in> set s1" by simp
        moreover have "l \<notin> set s"
          using Suc.prems(2) False st by (auto simp: sortInv_def)
        ultimately have "l \<in> set ys" using ys by simp
        with ys have "(ref, l) \<in> (depends ls)\<^sup>*" by auto
        with dep have "(l, l) \<in> (depends ls)\<^sup>+" by (rule rtrancl_into_trancl2)
        with ac show False by (simp add: acyclic_def)
      qed
      have succ: "r \<in> set s1" if "(l, r) \<in> depends ls" for r
      proof -
        from that i ref have "r = ref"
          using depends_layerMap[OF d Suc.prems(1)] by auto
        with sortInv_member[OF d inv1 refin] refp show ?thesis by simp
      qed
      have "(depends ls)\<^sup>* `` {ref} \<subseteq> (depends ls)\<^sup>* `` {l}"
        using dep by (auto intro: converse_rtrancl_into_rtrancl)
      with inv1 lnot succ ys show ?thesis by blast
    next
      case no: False
      then have mid_st: "mid = Inr (s, p)"
        by (auto simp: mid_def split: option.splits)
      with mid have eq: "s1 = s" "p1 = p" by simp_all
      have succ: "r \<in> set s" if "(l, r) \<in> depends ls" for r
      proof -
        from that obtain i where i: "referentOf (position l) = Some i"
          "layerMap ls i = Some r"
          using depends_layerMap[OF d Suc.prems(1)] by blast
        with no have "layer_id r \<in> p" by blast
        moreover from that have "r \<in> set ls" by (simp add: depends_in_layers)
        ultimately show ?thesis
          using sortInv_member[OF d Suc.prems(2)[unfolded st]] by simp
      qed
      with eq Suc.prems(2) st False show ?thesis by auto
    qed
    then obtain ys where inv1: "sortInv ls (s1, p1)" and lnot: "layer_id l \<notin> p1"
      and succ: "\<And>r. (l, r) \<in> depends ls \<Longrightarrow> r \<in> set s1"
      and ys: "s1 = s @ ys" "set ys \<subseteq> (depends ls)\<^sup>* `` {l}" by blast
    have "sortInv ls st'"
      unfolding st' using inv1 Suc.prems(1) lnot succ by (rule sortInv_push)
    moreover have "fst st' = fst st @ (ys @ [l])"
      using st st' ys by simp
    moreover have "set (ys @ [l]) \<subseteq> (depends ls)\<^sup>* `` {l}"
      using ys by auto
    ultimately show ?thesis using st' by (intro conjI exI[of _ "ys @ [l]"]) auto
  qed
qed

subsection \<open>Without a cycle the recursion ends\<close>

text \<open>
  A nested call is made for the referent of the layer, which no reference leads back
  to; so the layers still reachable get fewer with every nested call, and a stack with
  room for more calls than there are reachable layers is never exhausted.
\<close>

lemma processLayer_returns:
  assumes d: "distinct (map layer_id ls)" and ac: "acyclic (depends ls)"
  shows "l \<in> set ls \<Longrightarrow> finite S \<Longrightarrow> (depends ls)\<^sup>+ `` {l} \<subseteq> S \<Longrightarrow> card S < n
     \<Longrightarrow> \<exists>st'. processLayer n (layerMap ls) l st = Inr st'"
proof (induction n arbitrary: l S st)
  case 0
  then show ?case by simp
next
  case (Suc n)
  obtain s p where st: "st = (s, p)" by (cases st)
  have rec: "\<exists>st1. processLayer n (layerMap ls) ref (s, p) = Inr st1"
    if i: "referentOf (position l) = Some i" and ref: "layerMap ls i = Some ref" for i ref
  proof -
    from i ref have dep: "(l, ref) \<in> depends ls"
      using depends_layerMap[OF d Suc.prems(1)] by blast
    then have refin: "ref \<in> set ls" by (simp add: depends_in_layers)
    from dep Suc.prems(3) have refS: "ref \<in> S" by auto
    have "(depends ls)\<^sup>+ `` {ref} \<subseteq> S - {ref}"
    proof
      fix x assume x: "x \<in> (depends ls)\<^sup>+ `` {ref}"
      with dep have "(l, x) \<in> (depends ls)\<^sup>+" by (auto intro: trancl_into_trancl2)
      with Suc.prems(3) have "x \<in> S" by auto
      moreover from ac x have "x \<noteq> ref" by (auto simp: acyclic_def)
      ultimately show "x \<in> S - {ref}" by simp
    qed
    moreover have "card (S - {ref}) < n"
    proof -
      have "0 < card S" using Suc.prems(2) refS by (auto simp: card_gt_0_iff)
      with Suc.prems(4) refS show ?thesis by (simp add: card_Diff_singleton)
    qed
    ultimately show ?thesis
      using Suc.IH[OF refin, of "S - {ref}" "(s, p)"] Suc.prems(2) by simp
  qed
  show ?case
  proof (cases "\<exists>i ref. referentOf (position l) = Some i \<and> layerMap ls i = Some ref")
    case True
    then obtain i ref where ir: "referentOf (position l) = Some i" "layerMap ls i = Some ref"
      by blast
    from rec[OF ir] obtain st1 where "processLayer n (layerMap ls) ref (s, p) = Inr st1"
      by blast
    with ir show ?thesis unfolding st by (cases st1) auto
  next
    case False
    then show ?thesis unfolding st by (auto split: option.splits)
  qed
qed

lemma processAll_inv:
  assumes d: "distinct (map layer_id ls)" and ac: "acyclic (depends ls)"
    and n: "length ls < n"
  shows "set xs \<subseteq> set ls \<Longrightarrow> sortInv ls st
     \<Longrightarrow> \<exists>st'. processAll n (layerMap ls) xs st = Inr st' \<and> sortInv ls st'
           \<and> layer_id ` set xs \<subseteq> snd st' \<and> snd st \<subseteq> snd st'"
proof (induction xs arbitrary: st)
  case Nil
  then show ?case by simp
next
  case (Cons x xs)
  then have xin: "x \<in> set ls" by simp
  have "(depends ls)\<^sup>+ `` {x} \<subseteq> set ls"
    by (auto dest: reach_in_layers)
  moreover have "card (set ls) < n"
    using n card_length[of ls] by simp
  ultimately obtain st1 where st1: "processLayer n (layerMap ls) x st = Inr st1"
    using processLayer_returns[OF d ac xin, of "set ls" n st] by auto
  from processLayer_inv[OF d ac xin Cons.prems(2) st1]
  obtain ys where inv1: "sortInv ls st1" and xp: "layer_id x \<in> snd st1"
    and ys: "fst st1 = fst st @ ys" by blast
  from Cons.prems(2) inv1 ys have mono: "snd st \<subseteq> snd st1"
    by (auto simp: sortInv_def)
  from Cons.IH[OF _ inv1] Cons.prems(1)
  obtain st' where "processAll n (layerMap ls) xs st1 = Inr st'" "sortInv ls st'"
    "layer_id ` set xs \<subseteq> snd st'" "snd st1 \<subseteq> snd st'" by auto
  with st1 xp mono show ?case by auto
qed

lemma processAll_no_referents:
  "\<forall>l \<in> set xs. referentOf (position l) = None \<Longrightarrow> distinct (map layer_id xs)
     \<Longrightarrow> layer_id ` set xs \<inter> p = {}
     \<Longrightarrow> processAll (Suc n) lm xs (s, p) = Inr (s @ xs, p \<union> layer_id ` set xs)"
proof (induction xs arbitrary: s p)
  case Nil
  then show ?case by simp
next
  case (Cons x xs)
  have "processLayer (Suc n) lm x (s, p) = Inr (s @ [x], insert (layer_id x) p)"
    using Cons.prems by simp
  moreover have "processAll (Suc n) lm xs (s @ [x], insert (layer_id x) p)
      = Inr ((s @ [x]) @ xs, insert (layer_id x) p \<union> layer_id ` set xs)"
    using Cons.prems by (intro Cons.IH) auto
  ultimately show ?case by simp
qed

lemma sortInv_init: "sortInv ls ([], {})"
  by (simp add: sortInv_def)

lemma sort_returns_topological_order:
  assumes d: "distinct (map layer_id ls)" and ac: "acyclic (depends ls)"
    and n: "length ls < depth"
  shows "\<exists>out. sortLayersByDependencies depth ls = Inr out \<and> mset out = mset ls
           \<and> distinct out \<and> (\<forall>(l, r) \<in> depends ls. appearsBefore out r l)"
proof -
  from processAll_inv[OF d ac n subset_refl sortInv_init]
  obtain out p where run: "processAll depth (layerMap ls) ls ([], {}) = Inr (out, p)"
    and inv: "sortInv ls (out, p)" and all: "layer_id ` set ls \<subseteq> p"
    by auto
  have "set ls \<subseteq> set out"
    using sortInv_member[OF d inv] all by auto
  with inv have seteq: "set out = set ls" by (auto simp: sortInv_def)
  from inv have dout: "distinct out" by (simp add: sortInv_def)
  from d have dls: "distinct ls" by (rule distinct_map[THEN iffD1, THEN conjunct1])
  from seteq dout dls have "mset out = mset ls"
    by (simp add: set_eq_iff_mset_eq_distinct)
  moreover have "\<forall>(l, r) \<in> depends ls. appearsBefore out r l"
    using inv seteq by (auto simp: sortInv_def dest: depends_in_layers)
  ultimately show ?thesis
    using run dout by (simp add: sortLayersByDependencies_def)
qed

lemma sort_without_referents:
  assumes d: "distinct (map layer_id ls)"
    and none: "\<forall>l \<in> set ls. referentOf (position l) = None" and n: "0 < depth"
  shows "sortLayersByDependencies depth ls = Inr ls"
proof -
  from n obtain k where "depth = Suc k" by (cases depth) auto
  with processAll_no_referents[OF none d, of "{}" k "layerMap ls" "[]"]
  show ?thesis by (simp add: sortLayersByDependencies_def)
qed

lemma acyclic_by_rank:
  fixes f :: "SemanticLayer \<Rightarrow> nat"
  assumes "\<And>l r. (l, r) \<in> depends ls \<Longrightarrow> f r < f l"
  shows "acyclic (depends ls)"
  using assms by (rule acyclicI_order)

text \<open>
  Claim C1. For a specification whose layers have distinct identifiers and whose
  references are acyclic, with a call stack that has room for more nested calls than
  there are layers, \<open>sortLayersByDependencies\<close> returns a permutation of the layers
  in which every layer appears exactly once and, for every layer \<open>l\<close> positioned
  relative to a layer \<open>r\<close>, \<open>r\<close> appears strictly before \<open>l\<close>; when no layer has a
  relative position, the output is the declaration order.
\<close>

theorem sortLayersByDependencies_topological:
  assumes "distinct (map layer_id ls)" and "acyclic (depends ls)" and "length ls < depth"
  shows "\<exists>out. sortLayersByDependencies depth ls = Inr out \<and> mset out = mset ls
           \<and> distinct out \<and> (\<forall>(l, r) \<in> depends ls. appearsBefore out r l)
           \<and> ((\<forall>l \<in> set ls. ptype (position l) \<noteq> Relative) \<longrightarrow> out = ls)"
proof -
  from sort_returns_topological_order[OF assms]
  obtain out where out: "sortLayersByDependencies depth ls = Inr out" "mset out = mset ls"
    "distinct out" "\<forall>(l, r) \<in> depends ls. appearsBefore out r l" by blast
  have "out = ls" if "\<forall>l \<in> set ls. ptype (position l) \<noteq> Relative"
  proof -
    from that have "\<forall>l \<in> set ls. referentOf (position l) = None"
      by (simp add: referentOf_def)
    with sort_without_referents[OF assms(1), of depth] assms(3) out(1)
    show ?thesis by simp
  qed
  with out show ?thesis by blast
qed

lemma valve_depends:
  "(l, r) \<in> depends [valveLeft, valveCircle, valveRight] \<Longrightarrow> r = valveCircle \<and> l \<noteq> valveCircle"
  by (auto simp: depends_def referentOf_def valveLeft_def valveCircle_def valveRight_def
      relativePosition_def centeredPosition_def)

theorem sortLayersByDependencies_topological_witness:
  "distinct (map layer_id [valveLeft, valveCircle, valveRight])
   \<and> acyclic (depends [valveLeft, valveCircle, valveRight])
   \<and> (\<exists>out. sortLayersByDependencies 4 [valveLeft, valveCircle, valveRight] = Inr out
         \<and> mset out = mset [valveLeft, valveCircle, valveRight]
         \<and> appearsBefore out valveCircle valveLeft
         \<and> appearsBefore out valveCircle valveRight)"
proof -
  let ?ls = "[valveLeft, valveCircle, valveRight]"
  have d: "distinct (map layer_id ?ls)"
    by (simp add: valveLeft_def valveCircle_def valveRight_def)
  have ac: "acyclic (depends ?ls)"
  proof (rule acyclic_by_rank)
    fix l r assume "(l, r) \<in> depends ?ls"
    then show "(if r = valveCircle then 0 else 1 :: nat) < (if l = valveCircle then 0 else 1)"
      by (auto dest: valve_depends)
  qed
  have n: "length ?ls < 4" by simp
  have l: "(valveLeft, valveCircle) \<in> depends ?ls"
    by (simp add: depends_def referentOf_def valveLeft_def valveCircle_def relativePosition_def)
  have r: "(valveRight, valveCircle) \<in> depends ?ls"
    by (simp add: depends_def referentOf_def valveRight_def valveCircle_def relativePosition_def)
  from sortLayersByDependencies_topological[OF d ac n] l r d ac
  show ?thesis by blast
qed

section \<open>Dependency Orderer: reference cycles\<close>

text \<open>
  The only error of the orderer is the exhausted stack, and a call never marks a layer
  as processed from which the references lead into a cycle.
\<close>

lemma processLayer_error: "processLayer n lm l st = Inl e \<Longrightarrow> e = RangeError"
proof (induction n arbitrary: l st)
  case 0
  then show ?case by (cases st) simp
next
  case (Suc n)
  obtain s p where st: "st = (s, p)" by (cases st)
  from Suc.prems show ?case
    unfolding st
    by (auto split: if_splits option.splits sum.splits dest: Suc.IH)
qed

lemma processAll_error: "processAll n lm xs st = Inl e \<Longrightarrow> e = RangeError"
  by (induction xs arbitrary: st) (auto split: sum.splits dest: processLayer_error)

lemma processLayer_mono: "processLayer n lm l st = Inr st' \<Longrightarrow> snd st \<subseteq> snd st'"
proof (induction n arbitrary: l st st')
  case 0
  then show ?case by (cases st) simp
next
  case (Suc n)
  obtain s p where st: "st = (s, p)" by (cases st)
  from Suc.prems show ?case
    unfolding st
    by (fastforce split: if_splits option.splits sum.splits dest: Suc.IH)
qed

lemma leadsToCycle_step:
  assumes "l \<in> leadsToCycle ls"
  shows "\<exists>r. (l, r) \<in> depends ls \<and> r \<in> leadsToCycle ls"
proof -
  from assms obtain c where lc: "(l, c) \<in> (depends ls)\<^sup>*" and cc: "(c, c) \<in> (depends ls)\<^sup>+"
    by (auto simp: leadsToCycle_def)
  from lc cc have "(l, c) \<in> (depends ls)\<^sup>+"
    by (metis rtrancl_eq_or_trancl)
  then obtain r where "(l, r) \<in> depends ls" "(r, c) \<in> (depends ls)\<^sup>*"
    by (auto dest: tranclD)
  with cc show ?thesis by (auto simp: leadsToCycle_def)
qed

lemma processLayer_avoids_cycles:
  assumes d: "distinct (map layer_id ls)"
  shows "l \<in> set ls \<Longrightarrow> \<forall>b \<in> leadsToCycle ls. layer_id b \<notin> snd st
     \<Longrightarrow> processLayer n (layerMap ls) l st = Inr st'
     \<Longrightarrow> (\<forall>b \<in> leadsToCycle ls. layer_id b \<notin> snd st') \<and> layer_id l \<in> snd st'"
proof (induction n arbitrary: l st st')
  case 0
  then show ?case by (cases st) simp
next
  case (Suc n)
  obtain s p where st: "st = (s, p)" by (cases st)
  have bad_in: "b \<in> set ls" if "b \<in> leadsToCycle ls" for b
    using leadsToCycle_step[OF that] by (auto dest: depends_in_layers)
  show ?case
  proof (cases "layer_id l \<in> p")
    case True
    with Suc.prems st show ?thesis by auto
  next
    case False
    define mid where "mid =
      (case referentOf (position l) of
         Some r \<Rightarrow>
           (case layerMap ls r of
              Some ref \<Rightarrow>
                if layer_id ref \<notin> p
                then processLayer n (layerMap ls) ref (s, p)
                else Inr (s, p)
            | None \<Rightarrow> Inr (s, p))
       | None \<Rightarrow> Inr (s, p))"
    from Suc.prems(3) st False obtain s1 p1 where
      mid: "mid = Inr (s1, p1)" and st': "st' = (s1 @ [l], insert (layer_id l) p1)"
      by (auto simp: mid_def split: sum.splits)
    have main: "(\<forall>b \<in> leadsToCycle ls. layer_id b \<notin> p1) \<and> l \<notin> leadsToCycle ls"
    proof (cases "\<exists>i ref. referentOf (position l) = Some i \<and> layerMap ls i = Some ref
                    \<and> layer_id ref \<notin> p")
      case True
      then obtain i ref where i: "referentOf (position l) = Some i"
        and ref: "layerMap ls i = Some ref" and un: "layer_id ref \<notin> p" by blast
      from ref have refin: "ref \<in> set ls" by (simp add: layerMap_SomeD)
      from mid i ref un have "processLayer n (layerMap ls) ref (s, p) = Inr (s1, p1)"
        by (simp add: mid_def)
      from Suc.IH[OF refin Suc.prems(2)[unfolded st] this]
      have inv1: "\<forall>b \<in> leadsToCycle ls. layer_id b \<notin> p1" and "layer_id ref \<in> p1" by auto
      then have refgood: "ref \<notin> leadsToCycle ls" by auto
      have "l \<notin> leadsToCycle ls"
      proof
        assume "l \<in> leadsToCycle ls"
        from leadsToCycle_step[OF this] obtain r where
          r: "(l, r) \<in> depends ls" "r \<in> leadsToCycle ls" by blast
        with i ref have "r = ref" using depends_layerMap[OF d Suc.prems(1)] by auto
        with r refgood show False by simp
      qed
      with inv1 show ?thesis by simp
    next
      case no: False
      then have "mid = Inr (s, p)"
        by (auto simp: mid_def split: option.splits)
      with mid have eq: "s1 = s" "p1 = p" by simp_all
      have "l \<notin> leadsToCycle ls"
      proof
        assume "l \<in> leadsToCycle ls"
        from leadsToCycle_step[OF this] obtain r where
          r: "(l, r) \<in> depends ls" "r \<in> leadsToCycle ls" by blast
        then obtain i where "referentOf (position l) = Some i" "layerMap ls i = Some r"
          using depends_layerMap[OF d Suc.prems(1)] by blast
        with no have "layer_id r \<in> p" by blast
        with r Suc.prems(2) st show False by auto
      qed
      with eq Suc.prems(2) st show ?thesis by simp
    qed
    have "layer_id b \<notin> insert (layer_id l) p1" if b: "b \<in> leadsToCycle ls" for b
    proof -
      from b main have "b \<noteq> l" by auto
      with same_id_same_layer[OF d bad_in[OF b] Suc.prems(1)]
      have "layer_id b \<noteq> layer_id l" by auto
      with main b show ?thesis by simp
    qed
    with st' show ?thesis by simp
  qed
qed

lemma processAll_avoids_cycles:
  assumes d: "distinct (map layer_id ls)"
  shows "set xs \<subseteq> set ls \<Longrightarrow> \<forall>b \<in> leadsToCycle ls. layer_id b \<notin> snd st
     \<Longrightarrow> processAll n (layerMap ls) xs st = Inr st'
     \<Longrightarrow> (\<forall>b \<in> leadsToCycle ls. layer_id b \<notin> snd st') \<and> layer_id ` set xs \<subseteq> snd st'"
proof (induction xs arbitrary: st)
  case Nil
  then show ?case by simp
next
  case (Cons x xs)
  from Cons.prems(3) obtain st1 where
    st1: "processLayer n (layerMap ls) x st = Inr st1"
    and rest: "processAll n (layerMap ls) xs st1 = Inr st'"
    by (auto split: sum.splits)
  from Cons.prems(1) have xin: "x \<in> set ls" by simp
  from processLayer_avoids_cycles[OF d xin Cons.prems(2) st1]
  have inv1: "\<forall>b \<in> leadsToCycle ls. layer_id b \<notin> snd st1" and xp: "layer_id x \<in> snd st1"
    by auto
  from Cons.IH[OF _ inv1 rest] Cons.prems(1)
  have inv': "\<forall>b \<in> leadsToCycle ls. layer_id b \<notin> snd st'"
    and sub: "layer_id ` set xs \<subseteq> snd st'" by auto
  have "snd st1 \<subseteq> snd st'"
    using rest
  proof (induction xs arbitrary: st1)
    case Nil
    then show ?case by simp
  next
    case (Cons y ys)
    then show ?case
      by (auto split: sum.splits dest!: processLayer_mono)
  qed
  with xp inv' sub show ?case by auto
qed

lemma sort_cyclic:
  assumes d: "distinct (map layer_id ls)" and cyc: "\<not> acyclic (depends ls)"
  shows "sortLayersByDependencies depth ls = Inl RangeError"
proof -
  from cyc obtain c where cc: "(c, c) \<in> (depends ls)\<^sup>+" by (auto simp: acyclic_def)
  then have bad: "c \<in> leadsToCycle ls" by (auto simp: leadsToCycle_def)
  from cc have cin: "c \<in> set ls" by (simp add: reach_in_layers)
  show ?thesis
  proof (cases "processAll depth (layerMap ls) ls ([], {})")
    case (Inl e)
    then show ?thesis
      by (simp add: sortLayersByDependencies_def processAll_error)
  next
    case (Inr st')
    from processAll_avoids_cycles[OF d subset_refl _ Inr] bad cin
    show ?thesis by auto
  qed
qed

text \<open>
  Claim C4 asks that a specification whose references contain a cycle fails with a
  CyclicReferenceError that names the identifiers, rather than exhausting the call
  stack. The orderer marks a layer only after the call for its referent has returned,
  and has no mark for a layer in progress: on a cycle (identifiers distinct) every call
  of \<open>processLayer\<close> makes another, whatever room the stack has, and the run ends with
  the engine's \<open>RangeError\<close> and no placement recorded.
\<close>

theorem cyclic_references_exhaust_stack:
  assumes "distinct (map layer_id (layers spec))"
    and "\<not> acyclic (depends (layers spec))"
  shows "generateSemanticSvg depth fmt spec cs = (Inl RangeError, Map.empty)"
  using sort_cyclic[OF assms] by (simp add: generateSemanticSvg_def)

theorem cyclic_references_exhaust_stack_witness:
  "\<forall>depth fmt. generateSemanticSvg depth fmt (valveSpec [cycleA, cycleB]) Map.empty
     = (Inl RangeError, Map.empty)"
proof (intro allI)
  fix depth fmt
  let ?ls = "[cycleA, cycleB]"
  have ls: "layers (valveSpec ?ls) = ?ls" by (simp add: valveSpec_def)
  have d: "distinct (map layer_id ?ls)"
    by (simp add: cycleA_def cycleB_def valveLeft_def valveRight_def)
  have ab: "(cycleA, cycleB) \<in> depends ?ls"
    by (simp add: depends_def referentOf_def cycleA_def cycleB_def valveLeft_def
        valveRight_def relativePosition_def)
  have ba: "(cycleB, cycleA) \<in> depends ?ls"
    by (simp add: depends_def referentOf_def cycleA_def cycleB_def valveLeft_def
        valveRight_def relativePosition_def)
  from ab ba have "(cycleA, cycleA) \<in> (depends ?ls)\<^sup>+" by (rule trancl.intros(2)[OF r_into_trancl])
  then have "\<not> acyclic (depends ?ls)" by (auto simp: acyclic_def)
  with cyclic_references_exhaust_stack[of "valveSpec ?ls" depth fmt Map.empty] d ls
  show "generateSemanticSvg depth fmt (valveSpec ?ls) Map.empty = (Inl RangeError, Map.empty)"
    by simp
qed

section \<open>Layout Engine\<close>

subsection \<open>A referent that no layer carries\<close>








subsection \<open>The ball valve, end to end\<close>

lemma perm3:
  assumes "mset ls = mset [a, b, c]"
  shows "ls \<in> {[a, b, c], [a, c, b], [b, a, c], [b, c, a], [c, a, b], [c, b, a]}"
proof -
  from mset_eq_length[OF assms] have "length ls = 3" by simp
  then obtain x y z where ls: "ls = [x, y, z]"
    by (auto simp: numeral_3_eq_3 length_Suc_conv)
  from assms show ?thesis unfolding ls
    by (auto simp: add_eq_conv_ex)
qed

lemma valve_ids:
  "layer_id valveCircle = ''center_circle''" "layer_id valveLeft = ''left''"
  "layer_id valveRight = ''right''"
  by (simp_all add: valveCircle_def valveLeft_def valveRight_def)

lemma valve_referents:
  "referentOf (position valveCircle) = None"
  "referentOf (position valveLeft) = Some ''center_circle''"
  "referentOf (position valveRight) = Some ''center_circle''"
  by (simp_all add: referentOf_def valveCircle_def valveLeft_def valveRight_def
      relativePosition_def centeredPosition_def)

lemma valve_sorted:
  assumes "mset ls = mset [valveCircle, valveLeft, valveRight]"
  shows "sortLayersByDependencies (Suc (Suc k)) ls = Inr [valveCircle, valveLeft, valveRight]
       \<or> sortLayersByDependencies (Suc (Suc k)) ls = Inr [valveCircle, valveRight, valveLeft]"
  using perm3[OF assms]
  by (auto simp: sortLayersByDependencies_def layerMap_def valve_ids valve_referents)

lemma valve_positions:
  "calculatePosition valveCircle 400 400 cs = Inr (200, 200)"
  "calculatePosition valveLeft 400 400 cs =
     (case cs ''center_circle'' of
        None \<Rightarrow> Inl (notFound ''center_circle'')
      | Some p \<Rightarrow> Inr (b_left (bounds p), centerY p))"
  "calculatePosition valveRight 400 400 cs =
     (case cs ''center_circle'' of
        None \<Rightarrow> Inl (notFound ''center_circle'')
      | Some p \<Rightarrow> Inr (b_right (bounds p), centerY p))"
  by (simp_all add: calculatePosition_def Let_def referentOf_def offsetOrZero_def
      valveCircle_def valveLeft_def valveRight_def relativePosition_def
      centeredPosition_def split: option.splits)

lemma valve_shapes:
  "shape valveCircle = Circle 30"
  "shape valveLeft = Triangle equilateral pointing_right 100"
  "shape valveRight = Triangle equilateral pointing_left 100"
  by (simp_all add: valveCircle_def valveLeft_def valveRight_def)

lemma valve_layout:
  assumes "sortedLayers = [valveCircle, valveLeft, valveRight]
         \<or> sortedLayers = [valveCircle, valveRight, valveLeft]"
  shows "\<exists>svg' cs'. layoutLayers fmt 400 400 sortedLayers (svg, Map.empty) = (Inr svg', cs')
       \<and> map_option (\<lambda>p. (centerX p, centerY p)) (cs' ''center_circle'') = Some (200, 200)
       \<and> map_option (\<lambda>p. (centerX p, centerY p)) (cs' ''left'') = Some (170, 200)
       \<and> map_option (\<lambda>p. (centerX p, centerY p)) (cs' ''right'') = Some (230, 200)"
  using assms
  by (auto simp: valve_positions valve_shapes valve_ids Let_def)

text \<open>
  Claim C3. For the ISA ball-valve specification on a 400 by 400 canvas (circle
  \<open>center_circle\<close> of radius 30, centered; triangle \<open>left\<close>, equilateral, pointing
  right, size 100, tip_touches_left of the circle; triangle \<open>right\<close>, equilateral,
  pointing left, size 100, tip_touches_right of the circle), in every declaration
  order of the three layers, the run returns markup and records the centers
  (200, 200) for the circle, (170, 200) for \<open>left\<close> and (230, 200) for \<open>right\<close>.
\<close>

theorem ball_valve_centers:
  assumes "mset ls = mset [valveCircle, valveLeft, valveRight]" and "2 \<le> depth"
  shows "\<exists>svg cs. generateSemanticSvg depth fmt (valveSpec ls) cs0 = (Inr svg, cs)
       \<and> map_option (\<lambda>p. (centerX p, centerY p)) (cs ''center_circle'') = Some (200, 200)
       \<and> map_option (\<lambda>p. (centerX p, centerY p)) (cs ''left'') = Some (170, 200)
       \<and> map_option (\<lambda>p. (centerX p, centerY p)) (cs ''right'') = Some (230, 200)"
proof -
  define k where "k = depth - 2"
  with assms(2) have k: "depth = Suc (Suc k)" by simp
  from valve_sorted[OF assms(1), of k] obtain sortedLayers where
    s: "sortLayersByDependencies depth (layers (valveSpec ls)) = Inr sortedLayers"
    and o: "sortedLayers = [valveCircle, valveLeft, valveRight]
          \<or> sortedLayers = [valveCircle, valveRight, valveLeft]"
    unfolding k by (auto simp: valveSpec_def)
  from valve_layout[OF o, of fmt "svgHeader fmt (valveSpec ls)"]
  obtain svg' cs' where
    l: "layoutLayers fmt 400 400 sortedLayers (svgHeader fmt (valveSpec ls), Map.empty)
          = (Inr svg', cs')"
    and c: "map_option (\<lambda>p. (centerX p, centerY p)) (cs' ''center_circle'') = Some (200, 200)"
      "map_option (\<lambda>p. (centerX p, centerY p)) (cs' ''left'') = Some (170, 200)"
      "map_option (\<lambda>p. (centerX p, centerY p)) (cs' ''right'') = Some (230, 200)"
    by blast
  have wh: "width (canvasSize (valveSpec ls)) = 400" "height (canvasSize (valveSpec ls)) = 400"
    by (simp_all add: valveSpec_def)
  have "generateSemanticSvg depth fmt (valveSpec ls) cs0
      = (Inr (join nl (svg' @ [''</svg>''])), cs')"
    using s l by (simp add: generateSemanticSvg_def wh)
  with c show ?thesis by blast
qed

theorem ball_valve_centers_witness:
  "\<forall>fmt. \<exists>svg cs.
     generateSemanticSvg 2 fmt (valveSpec [valveLeft, valveCircle, valveRight]) Map.empty
       = (Inr svg, cs)
     \<and> map_option (\<lambda>p. (centerX p, centerY p)) (cs ''center_circle'') = Some (200, 200)
     \<and> map_option (\<lambda>p. (centerX p, centerY p)) (cs ''left'') = Some (170, 200)
     \<and> map_option (\<lambda>p. (centerX p, centerY p)) (cs ''right'') = Some (230, 200)"
proof
  fix fmt
  have m: "mset [valveLeft, valveCircle, valveRight] = mset [valveCircle, valveLeft, valveRight]"
    by simp
  have d: "(2::nat) \<le> 2" by simp
  from ball_valve_centers[OF m d, of fmt Map.empty]
  show "\<exists>svg cs.
     generateSemanticSvg 2 fmt (valveSpec [valveLeft, valveCircle, valveRight]) Map.empty
       = (Inr svg, cs)
     \<and> map_option (\<lambda>p. (centerX p, centerY p)) (cs ''center_circle'') = Some (200, 200)
     \<and> map_option (\<lambda>p. (centerX p, centerY p)) (cs ''left'') = Some (170, 200)
     \<and> map_option (\<lambda>p. (centerX p, centerY p)) (cs ''right'') = Some (230, 200)" .
qed

subsection \<open>Two runs in sequence\<close>

text \<open>
  Claim C8. A run does not depend on the placements the module-level map holds when
  it starts: running the same specification twice in sequence gives the same result
  and the same recorded placements both times.
\<close>

theorem runs_do_not_leak:
  "generateSemanticSvg depth fmt spec cs = generateSemanticSvg depth fmt spec cs'
   \<and> generateSemanticSvg depth fmt spec (snd (generateSemanticSvg depth fmt spec cs0))
     = generateSemanticSvg depth fmt spec cs0"
  by (simp add: generateSemanticSvg_def)

end
